theory Spec2Isabelle
  imports Main
begin

section \<open>Text and characters\<close>

text \<open>
  A Python \<open>str\<close> is a sequence of code points. The model is \<open>string\<close>, a list of
  \<open>char\<close>, each \<open>char\<close> read as the code point \<open>of_char c\<close> below 256 (ASCII and
  Latin-1); \<open>length\<close> is Python's \<open>len\<close>. Code points from 256 on are outside the model.
\<close>

definition cp :: "char \<Rightarrow> nat" where
  "cp c = of_char c"

text \<open>
  \<open>str.isspace\<close> on one character, which is what \<open>str.split()\<close> and the regex class
  \<open>\s\<close> test: the code points 9-13, 28-32, 133 and 160.
\<close>

definition is_space :: "char \<Rightarrow> bool" where
  "is_space c = ((9 \<le> cp c \<and> cp c \<le> 13) \<or> (28 \<le> cp c \<and> cp c \<le> 32) \<or> cp c = 133 \<or> cp c = 160)"

section \<open>The chunker: \<open>src/dataprep/01_chunk_and_clean.py\<close>\<close>

text \<open>
  \<open>text.split()\<close>: skip whitespace, take the run of non-whitespace characters as a word,
  go on behind it.
\<close>

function str_split :: "string \<Rightarrow> string list" where
  "str_split s =
     (case dropWhile is_space s of
        [] \<Rightarrow> []
      | c # cs \<Rightarrow> (c # takeWhile (\<lambda>x. \<not> is_space x) cs) # str_split (dropWhile (\<lambda>x. \<not> is_space x) cs))"
  by pat_completeness auto
termination
proof (relation "measure length")
  show "wf (measure length)" by simp
next
  fix s :: string and c cs
  assume "dropWhile is_space s = c # cs"
  then have "length s \<ge> length (c # cs)"
    by (metis length_dropWhile_le)
  moreover have "length (dropWhile (\<lambda>x. \<not> is_space x) cs) \<le> length cs"
    by (rule length_dropWhile_le)
  ultimately show "(dropWhile (\<lambda>x. \<not> is_space x) cs, s) \<in> measure length"
    by simp
qed

declare str_split.simps [simp del]

text \<open>\<open>" ".join(words)\<close>\<close>

fun str_join :: "string list \<Rightarrow> string" where
  "str_join [] = []"
| "str_join [w] = w"
| "str_join (w # v # ws) = w @ '' '' @ str_join (v # ws)"

datatype error = ValueError

text \<open>
  \<open>range(start, stop, step)\<close> as the list of its values: a zero step raises
  \<open>ValueError\<close>; otherwise the length is the one CPython computes.
\<close>

definition py_range :: "int \<Rightarrow> int \<Rightarrow> int \<Rightarrow> error + int list" where
  "py_range start stop step =
     (if step = 0 then Inl ValueError
      else if 0 < step then
        Inr (map (\<lambda>k. start + int k * step) [0..<nat ((stop - start + step - 1) div step)])
      else
        Inr (map (\<lambda>k. start + int k * step) [0..<nat ((start - stop - step - 1) div (- step))]))"

text \<open>
  The slice \<open>xs[a:b]\<close>: a negative bound counts from the end, and every bound is
  clipped to the list.
\<close>

definition slice_index :: "int \<Rightarrow> int \<Rightarrow> int" where
  "slice_index n a = (if a < 0 then max (a + n) 0 else min a n)"

definition py_slice :: "'a list \<Rightarrow> int \<Rightarrow> int \<Rightarrow> 'a list" where
  "py_slice xs a b =
     (let n = int (length xs); lo = slice_index n a; hi = slice_index n b
      in take (nat (hi - lo)) (drop (nat lo) xs))"

text \<open>
  The body of the \<open>for\<close> loop of \<open>create_chunks\<close>, with the list \<open>chunks\<close> as the state:
  join the window, append it when it is longer than 50 characters.
\<close>

definition chunk_step :: "string list \<Rightarrow> int \<Rightarrow> string list \<Rightarrow> int \<Rightarrow> string list" where
  "chunk_step words chunk_size chunks i =
     (let chunk = str_join (py_slice words i (i + chunk_size))
      in if 50 < length chunk then chunks @ [chunk] else chunks)"

definition create_chunks :: "string \<Rightarrow> int \<Rightarrow> int \<Rightarrow> error + string list" where
  "create_chunks text chunk_size overlap =
     (let words = str_split text
      in if words = [] then Inr []
         else case py_range 0 (int (length words)) (chunk_size - overlap) of
                Inl e \<Rightarrow> Inl e
              | Inr idx \<Rightarrow> Inr (foldl (chunk_step words chunk_size) [] idx))"

text \<open>The window of \<open>chunk_size\<close> tokens that starts at token \<open>i\<close>.\<close>

definition window :: "string list \<Rightarrow> int \<Rightarrow> nat \<Rightarrow> string list" where
  "window words chunk_size i = take (nat chunk_size) (drop i words)"

text \<open>
  The windows at the offsets \<open>0, stride, 2 * stride, ...\<close> below the number of tokens.
\<close>

definition windows :: "string list \<Rightarrow> int \<Rightarrow> nat \<Rightarrow> string list list" where
  "windows words chunk_size stride =
     map (\<lambda>k. window words chunk_size (k * stride)) [0..<(length words + stride - 1) div stride]"

text \<open>A token: not empty, no whitespace in it.\<close>

definition token :: "string \<Rightarrow> bool" where
  "token w = (w \<noteq> [] \<and> list_all (\<lambda>c. \<not> is_space c) w)"

section \<open>The sanitizer: \<open>src/security/sanitizer.py\<close>\<close>

subsection \<open>Character tests of \<open>re\<close> on code points below 256\<close>

text \<open>\<open>\d\<close> is a decimal digit; below 256 these are \<open>0\<close> to \<open>9\<close>.\<close>

definition is_digit :: "char \<Rightarrow> bool" where
  "is_digit c = (48 \<le> cp c \<and> cp c \<le> 57)"

text \<open>
  \<open>\w\<close>, which decides \<open>\b\<close>: alphanumeric (\<open>str.isalnum\<close>) or the underscore. Below 256
  these are the ASCII letters and digits, \<open>_\<close>, and the Latin-1 letters and numerics.
\<close>

definition is_word :: "char \<Rightarrow> bool" where
  "is_word c =
     ((48 \<le> cp c \<and> cp c \<le> 57) \<or> (65 \<le> cp c \<and> cp c \<le> 90) \<or> cp c = 95 \<or>
      (97 \<le> cp c \<and> cp c \<le> 122) \<or> cp c = 170 \<or> cp c = 178 \<or> cp c = 179 \<or> cp c = 181 \<or>
      cp c = 185 \<or> cp c = 186 \<or> (188 \<le> cp c \<and> cp c \<le> 190) \<or>
      (192 \<le> cp c \<and> cp c \<le> 214) \<or> (216 \<le> cp c \<and> cp c \<le> 246) \<or> 248 \<le> cp c)"

text \<open>
  Simple case mapping below 256. The upper-case partners of code points 181 and 255 lie
  beyond 255 and belong to no set of the patterns; they are left in place.
\<close>

definition py_lower :: "char \<Rightarrow> char" where
  "py_lower c =
     (if (65 \<le> cp c \<and> cp c \<le> 90) \<or> (192 \<le> cp c \<and> cp c \<le> 222 \<and> cp c \<noteq> 215)
      then char_of (cp c + 32) else c)"

definition py_upper :: "char \<Rightarrow> char" where
  "py_upper c =
     (if (97 \<le> cp c \<and> cp c \<le> 122) \<or> (224 \<le> cp c \<and> cp c \<le> 254 \<and> cp c \<noteq> 247)
      then char_of (cp c - 32) else c)"

subsection \<open>Regular expressions and the backtracking matcher\<close>

text \<open>
  The members of a character set \<open>[...]\<close>: a literal, a range \<open>a-z\<close>, \<open>\d\<close>, \<open>\s\<close>.
  A single literal or class outside brackets is a set with one member.
\<close>

datatype item = Lit char | Range char char | Digit | Space

text \<open>
  The flag \<open>ic\<close> is \<open>(?i)\<close>: a character then matches a literal or a range when its
  lower-case or its upper-case form does.
\<close>

fun item_match :: "bool \<Rightarrow> item \<Rightarrow> char \<Rightarrow> bool" where
  "item_match ic (Lit x) c = (if ic then py_lower c = x \<or> py_upper c = x else c = x)"
| "item_match ic (Range lo hi) c =
     (if ic then (cp lo \<le> cp (py_lower c) \<and> cp (py_lower c) \<le> cp hi) \<or>
                 (cp lo \<le> cp (py_upper c) \<and> cp (py_upper c) \<le> cp hi)
      else cp lo \<le> cp c \<and> cp c \<le> cp hi)"
| "item_match ic Digit c = is_digit c"
| "item_match ic Space c = is_space c"

text \<open>A character is in a set \<open>[...]\<close> when one of the members matches it.\<close>

definition in_set :: "bool \<Rightarrow> item list \<Rightarrow> char \<Rightarrow> bool" where
  "in_set ic its c = list_ex (\<lambda>i. item_match ic i c) its"

text \<open>
  \<open>Rep r lo hi\<close> is the greedy repeat \<open>r{lo,hi}\<close>, with \<open>hi = None\<close> for no upper
  bound: \<open>r+\<close> is \<open>Rep r 1 None\<close>, \<open>r*\<close> is \<open>Rep r 0 None\<close>, \<open>r?\<close> is
  \<open>Rep r 0 (Some 1)\<close>. Groups only bracket; no pattern refers back to one.
\<close>

datatype regex =
    Eps
  | Chars "item list"
  | WordBoundary
  | Seq regex regex
  | Alt regex regex
  | Rep regex nat "nat option"

text \<open>
  A position in the subject string: the character before it (\<open>None\<close> at the start)
  and the rest of the string from it on. The character before is all that \<open>\b\<close>
  needs of the left context.
\<close>

type_synonym cursor = "char option \<times> string"

definition word_before :: "cursor \<Rightarrow> bool" where
  "word_before z = (case fst z of None \<Rightarrow> False | Some c \<Rightarrow> is_word c)"

definition word_after :: "cursor \<Rightarrow> bool" where
  "word_after z = (case snd z of [] \<Rightarrow> False | c # cs \<Rightarrow> is_word c)"

definition at_boundary :: "cursor \<Rightarrow> bool" where
  "at_boundary z = (word_before z \<noteq> word_after z)"

text \<open>
  Greedy repetition by backtracking: with at most \<open>k\<close> more rounds allowed and \<open>lo\<close>
  still owed, first every way of doing one more round, then stopping here.
\<close>

fun reps :: "(cursor \<Rightarrow> cursor list) \<Rightarrow> nat \<Rightarrow> nat \<Rightarrow> cursor \<Rightarrow> cursor list" where
  "reps f 0 lo z = (if lo = 0 then [z] else [])"
| "reps f (Suc k) lo z =
     concat (map (reps f k (lo - 1)) (f z)) @ (if lo = 0 then [z] else [])"

text \<open>
  \<open>ends ic r z\<close> lists the positions where a match of \<open>r\<close> that starts at \<open>z\<close> can end,
  in the order in which the backtracking matcher of \<open>re\<close> tries them; the match it
  reports is the first. Every repeat without upper bound in the patterns has a body of
  one character, so it runs at most once for each character left.
\<close>

primrec ends :: "bool \<Rightarrow> regex \<Rightarrow> cursor \<Rightarrow> cursor list" where
  "ends ic Eps z = [z]"
| "ends ic (Chars its) z =
     (case snd z of
        [] \<Rightarrow> []
      | c # cs \<Rightarrow> if in_set ic its c then [(Some c, cs)] else [])"
| "ends ic WordBoundary z = (if at_boundary z then [z] else [])"
| "ends ic (Seq a b) z = concat (map (ends ic b) (ends ic a z))"
| "ends ic (Alt a b) z = ends ic a z @ ends ic b z"
| "ends ic (Rep r lo hi) z =
     reps (ends ic r) (case hi of None \<Rightarrow> length (snd z) | Some h \<Rightarrow> h) lo z"

text \<open>A compiled pattern: the flag \<open>(?i)\<close> and the expression.\<close>

record pattern =
  ignorecase :: bool
  expr :: regex

definition match_at :: "pattern \<Rightarrow> cursor \<Rightarrow> cursor option" where
  "match_at p z = (case ends (ignorecase p) (expr p) z of [] \<Rightarrow> None | e # es \<Rightarrow> Some e)"

text \<open>
  \<open>re.sub(pattern, repl, text)\<close> for a replacement without escapes: scan from the left;
  where the pattern matches, emit the replacement and go on behind the match; elsewhere
  copy the character. (After an empty match the next character is copied; none of the
  patterns below matches the empty string.)
\<close>

function sub_from :: "pattern \<Rightarrow> string \<Rightarrow> cursor \<Rightarrow> string" where
  "sub_from p repl z =
     (case match_at p z of
        Some e \<Rightarrow>
          (if length (snd e) < length (snd z) then repl @ sub_from p repl e
           else (case snd z of [] \<Rightarrow> repl | c # cs \<Rightarrow> repl @ c # sub_from p repl (Some c, cs)))
      | None \<Rightarrow> (case snd z of [] \<Rightarrow> [] | c # cs \<Rightarrow> c # sub_from p repl (Some c, cs)))"
  by pat_completeness auto
termination
  by (relation "measure (\<lambda>(p, repl, z). length (snd z))") auto

declare sub_from.simps [simp del]

definition re_sub :: "pattern \<Rightarrow> string \<Rightarrow> string \<Rightarrow> string" where
  "re_sub p repl text = sub_from p repl (None, text)"

subsection \<open>The patterns of \<open>DataSanitizer\<close>\<close>

fun seqs :: "regex list \<Rightarrow> regex" where
  "seqs [] = Eps"
| "seqs [r] = r"
| "seqs (r # rs) = Seq r (seqs rs)"

definition lit :: "string \<Rightarrow> regex" where
  "lit s = seqs (map (\<lambda>c. Chars [Lit c]) s)"

text \<open>\<^verbatim>\<open>\b(?:\d{1,3}\.){3}\d{1,3}\b\<close>\<close>

definition IPV4 :: pattern where
  "IPV4 = \<lparr>ignorecase = False, expr = seqs
     [WordBoundary,
      Rep (Seq (Rep (Chars [Digit]) 1 (Some 3)) (Chars [Lit CHR ''.''])) 3 (Some 3),
      Rep (Chars [Digit]) 1 (Some 3),
      WordBoundary]\<rparr>"

text \<open>\<^verbatim>\<open>\b[A-Za-z0-9._%+-]+@[A-Za-z0-9.-]+\.[A-Z|a-z]{2,}\b\<close>\<close>

definition EMAIL :: pattern where
  "EMAIL = \<lparr>ignorecase = False, expr = seqs
     [WordBoundary,
      Rep (Chars [Range CHR ''A'' CHR ''Z'', Range CHR ''a'' CHR ''z'', Range CHR ''0'' CHR ''9'',
                  Lit CHR ''.'', Lit CHR ''_'', Lit CHR ''%'', Lit CHR ''+'', Lit CHR ''-'']) 1 None,
      Chars [Lit CHR ''@''],
      Rep (Chars [Range CHR ''A'' CHR ''Z'', Range CHR ''a'' CHR ''z'', Range CHR ''0'' CHR ''9'',
                  Lit CHR ''.'', Lit CHR ''-'']) 1 None,
      Chars [Lit CHR ''.''],
      Rep (Chars [Range CHR ''A'' CHR ''Z'', Lit CHR ''|'', Range CHR ''a'' CHR ''z'']) 2 None,
      WordBoundary]\<rparr>"

text \<open>\<^verbatim>\<open>(?i)\b(api[_-]?key|access[_-]?token|secret|password|auth)\s*[:=]\s*[A-Za-z0-9_\-]{16,}\b\<close>\<close>

definition keyword :: regex where
  "keyword =
     Alt (seqs [lit ''api'', Rep (Chars [Lit CHR ''_'', Lit CHR ''-'']) 0 (Some 1), lit ''key''])
    (Alt (seqs [lit ''access'', Rep (Chars [Lit CHR ''_'', Lit CHR ''-'']) 0 (Some 1), lit ''token''])
    (Alt (lit ''secret'')
    (Alt (lit ''password'')
         (lit ''auth''))))"

definition SECRET_KEY :: pattern where
  "SECRET_KEY = \<lparr>ignorecase = True, expr = seqs
     [WordBoundary,
      keyword,
      Rep (Chars [Space]) 0 None,
      Chars [Lit CHR '':'', Lit CHR ''=''],
      Rep (Chars [Space]) 0 None,
      Rep (Chars [Range CHR ''A'' CHR ''Z'', Range CHR ''a'' CHR ''z'', Range CHR ''0'' CHR ''9'',
                  Lit CHR ''_'', Lit CHR ''-'']) 16 None,
      WordBoundary]\<rparr>"

text \<open>\<^verbatim>\<open>([0-9A-Fa-f]{2}[:-]){5}([0-9A-Fa-f]{2})\<close>\<close>

definition hexdigit :: "item list" where
  "hexdigit = [Range CHR ''0'' CHR ''9'', Range CHR ''A'' CHR ''F'', Range CHR ''a'' CHR ''f'']"

definition colon_dash :: "item list" where
  "colon_dash = [Lit CHR '':'', Lit CHR ''-'']"

definition hex2 :: regex where
  "hex2 = Rep (Chars hexdigit) 2 (Some 2)"

definition MAC_ADDR :: pattern where
  "MAC_ADDR = \<lparr>ignorecase = False, expr = Seq (Rep (Seq hex2 (Chars colon_dash)) 5 (Some 5)) hex2\<rparr>"

text \<open>
  The two dictionaries of \<open>__init__\<close>, in insertion order, which is the order in which
  \<open>clean_text\<close> iterates over \<open>self.patterns.items()\<close>.
\<close>

definition patterns :: "(string \<times> pattern) list" where
  "patterns = [(''IPV4'', IPV4), (''EMAIL'', EMAIL), (''SECRET_KEY'', SECRET_KEY), (''MAC_ADDR'', MAC_ADDR)]"

definition replacements :: "(string \<times> string) list" where
  "replacements =
     [(''IPV4'', ''[REDACTED_IP]''), (''EMAIL'', ''[REDACTED_EMAIL]''),
      (''SECRET_KEY'', ''[REDACTED_SECRET]''), (''MAC_ADDR'', ''[REDACTED_MAC]'')]"

text \<open>\<open>self.replacements.get(key, "[REDACTED]")\<close>\<close>

definition replacement_for :: "string \<Rightarrow> string" where
  "replacement_for key = (case map_of replacements key of None \<Rightarrow> ''[REDACTED]'' | Some r \<Rightarrow> r)"

definition clean_text :: "string \<Rightarrow> string" where
  "clean_text text =
     (if text = [] then []
      else foldl (\<lambda>cleaned_text (key, p). re_sub p (replacement_for key) cleaned_text) text patterns)"

subsection \<open>The language of an expression\<close>




text \<open>The character before the position reached from \<open>p\<close> by reading \<open>m\<close>.\<close>

definition after :: "char option \<Rightarrow> string \<Rightarrow> char option" where
  "after p m = (if m = [] then p else Some (last m))"

text \<open>A cursor between whitespace: start or whitespace before it, only whitespace behind.\<close>

definition blank :: "cursor \<Rightarrow> bool" where
  "blank z = ((case fst z of None \<Rightarrow> True | Some c \<Rightarrow> is_space c) \<and> list_all is_space (snd z))"




subsection \<open>The secret assignment, as the specification words it\<close>





section \<open>The matcher and the language of an expression\<close>

lemma sub_from_Nil: "sub_from p repl (q, []) = (case match_at p (q, []) of None \<Rightarrow> [] | Some e \<Rightarrow> repl)"
  by (subst sub_from.simps) (simp split: option.split)

lemma sub_from_no_match:
  "match_at p (q, c # cs) = None \<Longrightarrow> sub_from p repl (q, c # cs) = c # sub_from p repl (Some c, cs)"
  by (subst sub_from.simps) simp

lemma after_Nil [simp]: "after p [] = p"
  by (simp add: after_def)


lemma after_single [simp]: "after p [c] = Some c"
  by (simp add: after_def)









section \<open>No MAC address in the output\<close>







subsection \<open>The strings of the MAC pattern\<close>




















section \<open>The strings of the secret pattern\<close>

subsection \<open>Characters under \<open>(?i)\<close>\<close>











subsection \<open>Repeats of a character set\<close>




subsection \<open>Literals and keywords\<close>








subsection \<open>The pattern\<close>





lemma ends_WordBoundary_iff: "(q, ys) \<in> set (ends ic WordBoundary z) \<longleftrightarrow> (q, ys) = z \<and> at_boundary z"
  by auto







section \<open>Properties of the sanitizer\<close>

subsection \<open>Characters\<close>

lemma space_not_word: "is_space c \<Longrightarrow> \<not> is_word c"
  by (auto simp: is_space_def is_word_def)

lemma ends_boundary_first:
  "\<not> at_boundary z \<Longrightarrow> ends ic (Seq WordBoundary r) z = []"
  by simp

subsection \<open>Whitespace\<close>

lemma blank_no_boundary: "blank z \<Longrightarrow> \<not> at_boundary z"
  by (cases z) (auto simp: blank_def at_boundary_def word_before_def word_after_def space_not_word
      split: option.splits list.splits)

lemma blank_IPV4: "blank z \<Longrightarrow> match_at IPV4 z = None"
  by (simp add: match_at_def IPV4_def blank_no_boundary)

lemma blank_EMAIL: "blank z \<Longrightarrow> match_at EMAIL z = None"
  by (simp add: match_at_def EMAIL_def blank_no_boundary)

lemma blank_SECRET_KEY: "blank z \<Longrightarrow> match_at SECRET_KEY z = None"
  by (simp add: match_at_def SECRET_KEY_def blank_no_boundary)

lemma blank_MAC_ADDR: "blank z \<Longrightarrow> match_at MAC_ADDR z = None"
proof (cases z)
  case (Pair q xs)
  assume "blank z"
  then have "xs = [] \<or> (\<exists>c cs. xs = c # cs \<and> is_space c)"
    using Pair by (cases xs) (auto simp: blank_def)
  then show ?thesis
    by (auto simp: Pair match_at_def MAC_ADDR_def hex2_def hexdigit_def in_set_def numeral_eq_Suc
        is_space_def cp_def)
qed

lemma sub_from_blank:
  assumes "\<And>z. blank z \<Longrightarrow> match_at p z = None"
  shows "blank (q, xs) \<Longrightarrow> sub_from p repl (q, xs) = xs"
proof (induction xs arbitrary: q)
  case Nil
  then show ?case using assms [of "(q, [])"] by (simp add: sub_from_Nil)
next
  case (Cons c cs)
  then have "blank (Some c, cs)" by (simp add: blank_def)
  then show ?case using Cons assms [of "(q, c # cs)"] by (simp add: sub_from_no_match)
qed

text \<open>
  Claim C4 says that \<open>clean_text\<close> returns the empty string for empty and for
  whitespace-only input. The guard \<open>if not text\<close> holds for the empty string only: a
  single space comes back as it is.
\<close>

theorem whitespace_kept_counterexample:
  "list_all is_space '' '' \<and> clean_text '' '' = '' ''"
  by code_simp

text \<open>
  Claim C4, amended. \<open>clean_text\<close> returns the empty string for the empty string, and
  returns a whitespace-only input unchanged; it fails for neither.
\<close>

theorem clean_text_whitespace:
  "clean_text [] = [] \<and> (list_all is_space s \<longrightarrow> clean_text s = s)"
proof (intro conjI impI)
  show "clean_text [] = []" by (simp add: clean_text_def)
next
  assume "list_all is_space s"
  then have b: "blank (None, s)" by (simp add: blank_def)
  have "re_sub p repl s = s" if "\<And>z. blank z \<Longrightarrow> match_at p z = None" for p repl
    using sub_from_blank [OF that b] by (simp add: re_sub_def)
  then show "clean_text s = s"
    by (simp add: clean_text_def patterns_def blank_IPV4 blank_EMAIL blank_SECRET_KEY blank_MAC_ADDR)
qed

theorem clean_text_whitespace_witness:
  "clean_text [] = [] \<and> clean_text [CHR '' '', CHR 0x09, CHR 0x0A] = [CHR '' '', CHR 0x09, CHR 0x0A]"
proof -
  have "list_all is_space [CHR '' '', CHR 0x09, CHR 0x0A]" by (simp add: is_space_def cp_def)
  with clean_text_whitespace [of "[CHR '' '', CHR 0x09, CHR 0x0A]"] show ?thesis by simp
qed

subsection \<open>Placeholders and a second pass\<close>

text \<open>
  Claim C2 says that \<open>clean_text\<close> is idempotent. A replacement can put a word boundary
  where the input had none: the digits behind a MAC address are no match of the IPv4
  pattern in the input, and are one behind the placeholder, which a second call replaces.
\<close>

theorem not_idempotent_counterexample:
  "clean_text ''00:1A:2B:3C:4D:5E1.2.3.4'' = ''[REDACTED_MAC]1.2.3.4'' \<and>
   clean_text (clean_text ''00:1A:2B:3C:4D:5E1.2.3.4'') = ''[REDACTED_MAC][REDACTED_IP]''"
  by code_simp

text \<open>
  Claim C2, amended. Every placeholder literal is a fixed point of \<open>clean_text\<close>: no
  pattern matches anywhere in it on a second pass.
\<close>

theorem placeholders_fixed:
  "clean_text ''[REDACTED_IP]'' = ''[REDACTED_IP]'' \<and>
   clean_text ''[REDACTED_EMAIL]'' = ''[REDACTED_EMAIL]'' \<and>
   clean_text ''[REDACTED_SECRET]'' = ''[REDACTED_SECRET]'' \<and>
   clean_text ''[REDACTED_MAC]'' = ''[REDACTED_MAC]'' \<and>
   map snd replacements = [''[REDACTED_IP]'', ''[REDACTED_EMAIL]'', ''[REDACTED_SECRET]'', ''[REDACTED_MAC]'']"
  by code_simp


section \<open>Properties of the chunker\<close>

subsection \<open>Splitting and joining\<close>

lemma str_split_skip: "str_split (dropWhile is_space s) = str_split s"
  by (subst (1 2) str_split.simps) simp

lemma str_split_space_Cons: "is_space c \<Longrightarrow> str_split (c # s) = str_split s"
  using str_split_skip [of "c # s"] str_split_skip [of s] by simp

lemma str_split_tokens: "w \<in> set (str_split s) \<Longrightarrow> token w"
proof (induction s rule: str_split.induct)
  case (1 s)
  show ?case
  proof (cases "dropWhile is_space s")
    case Nil
    with "1.prems" show ?thesis by (subst (asm) str_split.simps) simp
  next
    case (Cons c cs)
    have c: "\<not> is_space c"
      using Cons by (metis hd_dropWhile list.sel(1) list.distinct(1))
    from "1.prems" Cons
    have "w = c # takeWhile (\<lambda>x. \<not> is_space x) cs \<or> w \<in> set (str_split (dropWhile (\<lambda>x. \<not> is_space x) cs))"
      by (subst (asm) str_split.simps) simp
    then show ?thesis
    proof
      assume "w = c # takeWhile (\<lambda>x. \<not> is_space x) cs"
      then show ?thesis
        using c by (auto simp: token_def list_all_iff dest: set_takeWhileD)
    next
      assume "w \<in> set (str_split (dropWhile (\<lambda>x. \<not> is_space x) cs))"
      then show ?thesis using "1.IH" Cons by simp
    qed
  qed
qed

lemma str_split_Nil_iff: "str_split s = [] \<longleftrightarrow> list_all is_space s"
proof (cases "dropWhile is_space s")
  case Nil
  have "str_split s = []" by (subst str_split.simps) (simp only: Nil list.case)
  moreover from Nil have "list_all is_space s"
    by (simp add: dropWhile_eq_Nil_conv list_all_iff)
  ultimately show ?thesis by simp
next
  case (Cons c cs)
  have "str_split s \<noteq> []" by (subst str_split.simps) (simp only: Cons list.case list.distinct not_False_eq_True)
  moreover from Cons have "\<not> list_all is_space s"
    by (metis dropWhile_eq_Nil_conv list.distinct(1) list_all_iff)
  ultimately show ?thesis by simp
qed

lemma str_split_token_append:
  assumes "token w" and "rest = [] \<or> is_space (hd rest)"
  shows "str_split (w @ rest) = w # str_split rest"
proof -
  from assms(1) obtain c cs where w: "w = c # cs" and c: "\<not> is_space c"
    and cs: "\<forall>x\<in>set cs. \<not> is_space x"
    by (cases w) (auto simp: token_def list_all_iff)
  have tk: "takeWhile (\<lambda>x. \<not> is_space x) (cs @ rest) = cs"
    using cs assms(2) by (cases rest) (simp_all add: takeWhile_append2 takeWhile_eq_all_conv)
  have dr: "dropWhile (\<lambda>x. \<not> is_space x) (cs @ rest) = rest"
    using cs assms(2) by (cases rest) (simp_all add: dropWhile_append2 dropWhile_eq_Nil_conv)
  show ?thesis
    by (subst str_split.simps) (simp add: w c tk dr)
qed

lemma str_split_Nil [simp]: "str_split [] = []"
  by (subst str_split.simps) simp

lemma str_split_join: "list_all token ws \<Longrightarrow> str_split (str_join ws) = ws"
proof (induction ws rule: str_join.induct)
  case 1
  show ?case by simp
next
  case (2 w)
  then show ?case using str_split_token_append [of w "[]"] by simp
next
  case (3 w v ws)
  have sp: "is_space CHR '' ''" by (simp add: is_space_def cp_def)
  have "str_split (w @ CHR '' '' # str_join (v # ws)) = w # str_split (CHR '' '' # str_join (v # ws))"
    using 3 by (intro str_split_token_append) (simp_all add: sp)
  then show ?case using 3 by (simp add: str_split_space_Cons sp)
qed

lemma length_str_join: "list_all token ws \<Longrightarrow> 2 * length ws \<le> Suc (length (str_join ws))"
proof (induction ws rule: str_join.induct)
  case (2 w) then show ?case by (cases w) (simp_all add: token_def)
next
  case (3 w v ws) then show ?case by (cases w) (simp_all add: token_def)
qed simp

lemma str_join_Nil_iff: "list_all token ws \<Longrightarrow> str_join ws = [] \<longleftrightarrow> ws = []"
  by (induction ws rule: str_join.induct) (simp_all add: token_def)

lemma hd_str_join: "ws \<noteq> [] \<Longrightarrow> list_all token ws \<Longrightarrow> hd (str_join ws) = hd (hd ws)"
  by (induction ws rule: str_join.induct) (simp_all add: token_def)

lemma last_str_join: "ws \<noteq> [] \<Longrightarrow> list_all token ws \<Longrightarrow> last (str_join ws) = last (last ws)"
proof (induction ws rule: str_join.induct)
  case (3 w v ws)
  then have "str_join (v # ws) \<noteq> []" using str_join_Nil_iff [of "v # ws"] by simp
  with 3 show ?case by simp
qed simp_all

lemma set_str_join: "c \<in> set (str_join ws) \<Longrightarrow> c = CHR '' '' \<or> (\<exists>w\<in>set ws. c \<in> set w)"
  by (induction ws rule: str_join.induct) auto

lemma foldl_chunk_step:
  "foldl (chunk_step words cs) acc idx =
     acc @ filter (\<lambda>c. 50 < length c) (map (\<lambda>i. str_join (py_slice words i (i + cs))) idx)"
  by (induction idx arbitrary: acc) (simp_all add: chunk_step_def Let_def)

lemma py_slice_window:
  "0 \<le> cs \<Longrightarrow> j \<le> length words \<Longrightarrow> py_slice words (int j) (int j + cs) = window words cs j"
proof -
  assume cs: "0 \<le> cs" and j: "j \<le> length words"
  show ?thesis
  proof (cases "int j + cs \<le> int (length words)")
    case True
    with cs j show ?thesis
      by (simp add: py_slice_def slice_index_def window_def Let_def)
  next
    case False
    then have "length (drop j words) \<le> nat cs" by simp
    then have "take (nat cs) (drop j words) = drop j words" by simp
    moreover have "take (length words - j) (drop j words) = drop j words" by simp
    ultimately show ?thesis
      using False cs j
      by (simp add: py_slice_def slice_index_def window_def Let_def nat_diff_distrib' del: take_all_iff)
  qed
qed

lemma range_length: "0 < st \<Longrightarrow> nat ((int n + int st - 1) div int st) = (n + st - 1) div st"
proof -
  assume "0 < st"
  then have "int n + int st - 1 = int (n + st - 1)" by simp
  then show ?thesis by (simp only: zdiv_int [symmetric] nat_int)
qed

lemma offset_in_range:
  fixes n st k :: nat
  assumes "0 < st" "k < (n + st - 1) div st" shows "k * st < n"
proof -
  from assms have "Suc k \<le> (n + st - 1) div st" by simp
  then have "Suc k * st \<le> n + st - 1"
    using assms(1) by (simp add: less_eq_div_iff_mult_less_eq)
  then show ?thesis using assms(1) by simp
qed

lemma create_chunks_windows:
  assumes "0 \<le> ov" "ov < cs"
  shows "create_chunks text cs ov =
           Inr (filter (\<lambda>c. 50 < length c) (map str_join (windows (str_split text) cs (nat (cs - ov)))))"
proof -
  define ws where "ws = str_split text"
  define st where "st = nat (cs - ov)"
  have st: "0 < st" "int st = cs - ov" using assms by (simp_all add: st_def)
  have rng: "py_range 0 (int (length ws)) (cs - ov) =
               Inr (map (\<lambda>k. int (k * st)) [0..<(length ws + st - 1) div st])"
    using st assms range_length [of st "length ws"] by (simp add: py_range_def)
  have sl: "map (\<lambda>i. str_join (py_slice ws i (i + cs))) (map (\<lambda>k. int (k * st)) [0..<(length ws + st - 1) div st])
          = map str_join (windows ws cs st)"
    unfolding windows_def map_map
  proof (rule map_cong [OF refl])
    fix k assume "k \<in> set [0..<(length ws + st - 1) div st]"
    then have "k * st < length ws" using offset_in_range [OF st(1)] by simp
    then show "((\<lambda>i. str_join (py_slice ws i (i + cs))) \<circ> (\<lambda>k. int (k * st))) k
                 = (str_join \<circ> (\<lambda>k. window ws cs (k * st))) k"
      using assms py_slice_window [of cs "k * st" ws] by simp
  qed
  show ?thesis
  proof (cases "ws = []")
    case True
    then show ?thesis
      using st by (simp add: create_chunks_def ws_def [symmetric] st_def [symmetric] windows_def)
  next
    case False
    then show ?thesis
      by (simp only: create_chunks_def Let_def ws_def [symmetric] st_def [symmetric] if_False rng
            sum.case foldl_chunk_step sl append_Nil)
  qed
qed


lemma window_tokens: "list_all token (window (str_split text) cs j)"
proof -
  have "set (window (str_split text) cs j) \<subseteq> set (str_split text)"
    unfolding window_def by (meson set_take_subset set_drop_subset subset_trans)
  then show ?thesis
    using str_split_tokens by (auto simp: list_all_iff)
qed

lemma window_nonempty: "0 < cs \<Longrightarrow> j < length ws \<Longrightarrow> window ws cs j \<noteq> []"
  by (simp add: window_def)

lemma windows_offsets:
  "0 < st \<Longrightarrow> w \<in> set (windows ws cs st) \<Longrightarrow> \<exists>k. k * st < length ws \<and> w = window ws cs (k * st)"
proof -
  assume st: "0 < st" and "w \<in> set (windows ws cs st)"
  then obtain k where k: "k < (length ws + st - 1) div st" and w: "w = window ws cs (k * st)"
    by (auto simp: windows_def)
  from offset_in_range [OF st k] w show ?thesis by blast
qed



lemma str_split_spaced: "token w \<Longrightarrow> str_split (concat (replicate n (w @ '' ''))) = replicate n w"
proof (induction n)
  case 0
  show ?case by simp
next
  case (Suc n)
  have sp: "is_space CHR '' ''" by (simp add: is_space_def cp_def)
  have "str_split (w @ (CHR '' '' # concat (replicate n (w @ '' '')))) =
          w # str_split (CHR '' '' # concat (replicate n (w @ '' '')))"
    using Suc.prems by (intro str_split_token_append) (simp_all add: sp)
  with Suc show ?case by (simp add: str_split_space_Cons sp)
qed

subsection \<open>Windowing\<close>

text \<open>
  Claim C7. With valid parameters (\<open>0 \<le> overlap < chunk_size\<close>) the chunks are the
  windows of \<open>chunk_size\<close> tokens that start at the token offsets \<open>0, stride, 2 * stride, ...\<close>
  with \<open>stride = chunk_size - overlap\<close>, joined with single spaces, those of more than 50
  characters kept. For every text of 1000 words, \<open>chunk_size = 500\<close> and \<open>overlap = 50\<close>
  give exactly three chunks: the windows at the word indices 0, 450 and 900, the third being
  the final 100 words.
\<close>

theorem create_chunks_windowing:
  "(0 \<le> ov \<and> ov < cs \<longrightarrow>
      create_chunks text cs ov =
        Inr (filter (\<lambda>c. 50 < length c) (map str_join (windows (str_split text) cs (nat (cs - ov)))))) \<and>
   (length (str_split text) = 1000 \<longrightarrow>
      create_chunks text 500 50 =
        Inr [str_join (window (str_split text) 500 0),
             str_join (window (str_split text) 500 450),
             str_join (window (str_split text) 500 900)] \<and>
      window (str_split text) 500 900 = drop 900 (str_split text) \<and>
      length (drop 900 (str_split text)) = 100)"
proof (intro conjI impI)
  assume "0 \<le> ov \<and> ov < cs"
  then show "create_chunks text cs ov =
        Inr (filter (\<lambda>c. 50 < length c) (map str_join (windows (str_split text) cs (nat (cs - ov)))))"
    using create_chunks_windows by simp
next
  define ws where "ws = str_split text"
  assume n: "length (str_split text) = 1000"
  then have len: "length ws = 1000" by (simp add: ws_def)
  have idx: "[0..<(3::nat)] = [0, 1, 2]" by (simp add: upt_rec)
  have wins: "windows ws 500 450 = [window ws 500 0, window ws 500 450, window ws 500 900]"
    by (simp add: windows_def len idx)
  have long: "50 < length (str_join (window ws 500 j))" if "j \<le> 900" for j
  proof -
    have "100 \<le> length (window ws 500 j)" using that len by (simp add: window_def)
    moreover have "2 * length (window ws 500 j) \<le> Suc (length (str_join (window ws 500 j)))"
      using window_tokens [of "text" 500 j] by (intro length_str_join) (simp add: ws_def)
    ultimately show ?thesis by linarith
  qed
  have "create_chunks text 500 50 =
          Inr (filter (\<lambda>c. 50 < length c) (map str_join (windows ws 500 450)))"
    using create_chunks_windows [of 50 500 "text"] by (simp add: ws_def)
  then show "create_chunks text 500 50 =
        Inr [str_join (window (str_split text) 500 0),
             str_join (window (str_split text) 500 450),
             str_join (window (str_split text) 500 900)]"
    using long [of 0] long [of 450] long [of 900] by (simp add: wins ws_def [symmetric])
  show "window (str_split text) 500 900 = drop 900 (str_split text)"
    using n by (simp add: window_def)
  show "length (drop 900 (str_split text)) = 100"
    using n by simp
qed

theorem create_chunks_windowing_witness:
  "create_chunks (concat (replicate 1000 ''w '')) 500 50 =
     Inr [str_join (replicate 500 ''w''), str_join (replicate 500 ''w''), str_join (replicate 100 ''w'')] \<and>
   create_chunks (concat (replicate 1000 ''w '')) 500 50 =
     Inr (filter (\<lambda>c. 50 < length c)
       (map str_join (windows (str_split (concat (replicate 1000 ''w ''))) 500 (nat (500 - 50)))))"
proof -
  have tok: "token ''w''" by (simp add: token_def is_space_def cp_def)
  have sp: "str_split (concat (replicate 1000 ''w '')) = replicate 1000 ''w''"
    using str_split_spaced [OF tok, of 1000] by simp
  have len: "length (str_split (concat (replicate 1000 ''w ''))) = 1000"
    by (simp add: sp)
  have valid: "(0::int) \<le> 50 \<and> (50::int) < 500" by simp
  note inst = create_chunks_windowing [of 50 500 "concat (replicate 1000 ''w '')"]
  from inst valid have 1: "create_chunks (concat (replicate 1000 ''w '')) 500 50 =
     Inr (filter (\<lambda>c. 50 < length c)
       (map str_join (windows (str_split (concat (replicate 1000 ''w ''))) 500 (nat (500 - 50)))))"
    by blast
  from inst len have "create_chunks (concat (replicate 1000 ''w '')) 500 50 =
        Inr [str_join (window (str_split (concat (replicate 1000 ''w ''))) 500 0),
             str_join (window (str_split (concat (replicate 1000 ''w ''))) 500 450),
             str_join (window (str_split (concat (replicate 1000 ''w ''))) 500 900)]"
    by blast
  then have 2: "create_chunks (concat (replicate 1000 ''w '')) 500 50 =
     Inr [str_join (replicate 500 ''w''), str_join (replicate 500 ''w''), str_join (replicate 100 ''w'')]"
    by (simp add: sp window_def)
  from 1 2 show ?thesis by (rule conjI [rotated])
qed

subsection \<open>Degenerate strides\<close>

lemma py_range_negative_step:
  assumes "step < 0" "0 < n" shows "py_range 0 n step = Inr []"
proof -
  have "(0 - n - step - 1) div (- step) \<le> 0"
  proof (cases "0 - n - step - 1 < 0")
    case True
    then show ?thesis using assms by (simp add: pos_imp_zdiv_neg_iff less_imp_le)
  next
    case False
    then have "(0 - n - step - 1) div (- step) = 0"
      using assms by (intro div_pos_pos_trivial) simp_all
    then show ?thesis by simp
  qed
  then show ?thesis using assms by (simp add: py_range_def)
qed

text \<open>
  Claim C9. When \<open>overlap = chunk_size\<close>, \<open>create_chunks\<close> raises \<open>ValueError\<close> for every
  text with at least one token and returns the empty list for an empty or whitespace-only
  text; when \<open>overlap > chunk_size\<close> it returns the empty list for every text, without error.
\<close>

theorem create_chunks_degenerate_stride:
  "(ov = cs \<and> \<not> list_all is_space text \<longrightarrow> create_chunks text cs ov = Inl ValueError) \<and>
   (ov = cs \<and> list_all is_space text \<longrightarrow> create_chunks text cs ov = Inr []) \<and>
   (cs < ov \<longrightarrow> create_chunks text cs ov = Inr [])"
proof (intro conjI impI)
  assume "ov = cs \<and> \<not> list_all is_space text"
  then show "create_chunks text cs ov = Inl ValueError"
    by (simp add: create_chunks_def str_split_Nil_iff py_range_def)
next
  assume "ov = cs \<and> list_all is_space text"
  then show "create_chunks text cs ov = Inr []"
    by (simp add: create_chunks_def str_split_Nil_iff)
next
  assume neg: "cs < ov"
  show "create_chunks text cs ov = Inr []"
  proof (cases "str_split text = []")
    case True
    then show ?thesis by (simp add: create_chunks_def)
  next
    case False
    then have "py_range 0 (int (length (str_split text))) (cs - ov) = Inr []"
      using neg by (intro py_range_negative_step) simp_all
    with False show ?thesis by (simp add: create_chunks_def)
  qed
qed

theorem create_chunks_degenerate_stride_witness:
  "create_chunks ''hello world'' 4 4 = Inl ValueError \<and>
   create_chunks ''  '' 4 4 = Inr [] \<and>
   create_chunks ''hello world'' 4 7 = Inr []"
proof -
  have a: "\<not> list_all is_space ''hello world''" by (simp add: is_space_def cp_def)
  have b: "list_all is_space ''  ''" by (simp add: is_space_def cp_def)
  have c: "(4::int) < 7" by simp
  from create_chunks_degenerate_stride [of 4 4 "''hello world''"] a
  have 1: "create_chunks ''hello world'' 4 4 = Inl ValueError" by simp
  from create_chunks_degenerate_stride [of 4 4 "''  ''"] b
  have 2: "create_chunks ''  '' 4 4 = Inr []" by simp
  from create_chunks_degenerate_stride [of 7 4 "''hello world''"] c
  have 3: "create_chunks ''hello world'' 4 7 = Inr []" by simp
  from 1 2 3 show ?thesis by simp
qed

text \<open>
  Claim C3 says that \<open>overlap \<ge> chunk_size\<close> is rejected as a configuration error before
  any text is processed. \<open>create_chunks\<close> checks nothing: with \<open>overlap > chunk_size\<close> a text
  of two words is chunked into nothing without any error, and so is the empty text with
  \<open>overlap = chunk_size\<close>.
\<close>

theorem no_configuration_error_counterexample:
  "create_chunks ''hello world'' 3 5 = Inr [] \<and> create_chunks [] 5 5 = Inr []"
  by code_simp

text \<open>
  Claim C3, amended. \<open>create_chunks\<close> signals an error exactly when \<open>overlap = chunk_size\<close>
  and the text has at least one token (a character that is not whitespace): the error comes
  from the call itself and depends on the text.
\<close>

theorem create_chunks_error_iff:
  "(\<exists>e. create_chunks text cs ov = Inl e) \<longleftrightarrow> (ov = cs \<and> \<not> list_all is_space text)"
  by (auto simp: create_chunks_def py_range_def str_split_Nil_iff Let_def)

theorem create_chunks_error_iff_witness:
  "(\<exists>e. create_chunks ''hello world'' 5 5 = Inl e) \<and> \<not> list_all is_space ''hello world''"
  using create_chunks_error_iff [of "''hello world''" 5 5]
  by (simp add: is_space_def cp_def)


subsection \<open>Short inputs\<close>

text \<open>
  Claim C5 says that a text of fewer than \<open>chunk_size\<close> tokens gives at most one chunk.
  With \<open>chunk_size = 3\<close> and \<open>overlap = 2\<close> a text of two words of 51 characters gives
  two chunks: the loop also starts a window at the second word.
\<close>

theorem short_input_two_chunks_counterexample:
  "length (str_split (replicate 51 CHR ''a'' @ '' '' @ replicate 51 CHR ''b'')) = 2 \<and>
   create_chunks (replicate 51 CHR ''a'' @ '' '' @ replicate 51 CHR ''b'') 3 2 =
     Inr [replicate 51 CHR ''a'' @ '' '' @ replicate 51 CHR ''b'', replicate 51 CHR ''b'']"
  by code_simp

text \<open>
  Claim C5, amended. With valid parameters, a text of at most \<open>chunk_size - overlap\<close>
  tokens gives exactly one chunk, the single-space join of its tokens, when that join is
  longer than 50 characters, and no chunk otherwise.
\<close>

theorem create_chunks_within_stride:
  assumes "0 \<le> ov" and "ov < cs" and "length (str_split text) \<le> nat (cs - ov)"
  shows "create_chunks text cs ov =
           Inr (if 50 < length (str_join (str_split text)) then [str_join (str_split text)] else [])"
proof (cases "str_split text = []")
  case True
  then show ?thesis by (simp add: create_chunks_def)
next
  case False
  define ws where "ws = str_split text"
  define st where "st = nat (cs - ov)"
  have n: "0 < length ws" "length ws \<le> st" "st \<le> nat cs"
    using False assms by (simp_all add: ws_def st_def)
  from n obtain m where m: "length ws = Suc m" by (cases "length ws") simp_all
  have "(length ws + st - 1) div st = 1"
    using n by (intro div_nat_eqI) (simp_all add: m)
  then have "windows ws cs st = [ws]"
    using n by (simp add: windows_def window_def)
  then show ?thesis
    using create_chunks_windows [OF assms(1,2), of "text"] by (simp add: ws_def st_def)
qed

theorem create_chunks_within_stride_witness:
  "create_chunks (''  '' @ replicate 51 CHR ''a'' @ ''   b '') 5 2 = Inr [replicate 51 CHR ''a'' @ '' b'']"
proof -
  have "length (str_split (''  '' @ replicate 51 CHR ''a'' @ ''   b '')) \<le> nat (5 - 2)" by code_simp
  from create_chunks_within_stride [of 2 5 "''  '' @ replicate 51 CHR ''a'' @ ''   b ''", OF _ _ this]
  have "create_chunks (''  '' @ replicate 51 CHR ''a'' @ ''   b '') 5 2 =
          Inr (if 50 < length (str_join (str_split (''  '' @ replicate 51 CHR ''a'' @ ''   b '')))
               then [str_join (str_split (''  '' @ replicate 51 CHR ''a'' @ ''   b ''))] else [])"
    by simp
  also have "\<dots> = Inr [replicate 51 CHR ''a'' @ '' b'']" by code_simp
  finally show ?thesis .
qed

subsection \<open>Coverage\<close>



subsection \<open>The shape of a chunk\<close>

text \<open>
  Claim C10. With valid parameters, every chunk is the single-space join of a contiguous
  slice of the tokens of the text, the window at a multiple of the stride; it has at most
  \<open>chunk_size\<close> tokens and more than 50 characters, it neither starts nor ends with
  whitespace, and its only whitespace is the space: no newline, no tab.
\<close>

theorem create_chunks_shape:
  assumes "0 \<le> ov" and "ov < cs" and "create_chunks text cs ov = Inr chunks" and "c \<in> set chunks"
  shows "(\<exists>k. k * nat (cs - ov) < length (str_split text) \<and>
              c = str_join (window (str_split text) cs (k * nat (cs - ov))) \<and>
              str_split c = window (str_split text) cs (k * nat (cs - ov))) \<and>
         length (str_split c) \<le> nat cs \<and> 50 < length c \<and>
         \<not> is_space (hd c) \<and> \<not> is_space (last c) \<and>
         (\<forall>x\<in>set c. is_space x \<longrightarrow> x = CHR '' '') \<and>
         CHR 0x0A \<notin> set c \<and> CHR 0x09 \<notin> set c"
proof -
  define ws where "ws = str_split text"
  define st where "st = nat (cs - ov)"
  have st: "0 < st" using assms by (simp add: st_def)
  from assms have "c \<in> set (filter (\<lambda>c. 50 < length c) (map str_join (windows ws cs st)))"
    using create_chunks_windows [OF assms(1,2), of "text"] by (simp add: ws_def st_def)
  then obtain w where w: "w \<in> set (windows ws cs st)" and c: "c = str_join w" and long: "50 < length c"
    by auto
  from windows_offsets [OF st w] obtain k where k: "k * st < length ws" and wk: "w = window ws cs (k * st)"
    by blast
  have tok: "list_all token w" using window_tokens [of "text" cs "k * st"] by (simp add: wk ws_def)
  have ne: "w \<noteq> []" using k assms by (simp add: wk window_def)
  have sp: "str_split c = w" using tok by (simp add: c str_split_join)
  have len: "length (str_split c) \<le> nat cs" by (simp add: sp wk window_def)
  have "token (hd w)" "token (last w)" using tok ne by (simp_all add: list_all_iff)
  then have "\<not> is_space (hd (hd w))" "\<not> is_space (last (last w))"
    by (auto simp: token_def list_all_iff)
  then have ends: "\<not> is_space (hd c)" "\<not> is_space (last c)"
    using tok ne by (simp_all add: c hd_str_join last_str_join)
  have only: "\<forall>x\<in>set c. is_space x \<longrightarrow> x = CHR '' ''"
  proof (intro ballI impI)
    fix x assume "x \<in> set c" and x: "is_space x"
    then have "x = CHR '' '' \<or> (\<exists>v\<in>set w. x \<in> set v)" using set_str_join by (simp add: c)
    moreover have "\<not> (\<exists>v\<in>set w. x \<in> set v)" using tok x by (auto simp: token_def list_all_iff)
    ultimately show "x = CHR '' ''" by simp
  qed
  have "is_space (CHR 0x0A)" "is_space (CHR 0x09)" by (simp_all add: is_space_def cp_def)
  with only have nl: "CHR 0x0A \<notin> set c" "CHR 0x09 \<notin> set c" by auto
  from k wk c sp have "\<exists>k. k * st < length ws \<and> c = str_join (window ws cs (k * st)) \<and> str_split c = window ws cs (k * st)"
    by blast
  with len long ends only nl show ?thesis by (simp add: ws_def st_def)
qed


theorem create_chunks_shape_witness:
  "length (str_split (replicate 51 CHR ''b'')) \<le> nat 3 \<and> 50 < length (replicate 51 CHR ''b'') \<and>
   CHR 0x0A \<notin> set (replicate 51 CHR ''b'')"
proof -
  have "create_chunks (replicate 51 CHR ''a'' @ '' '' @ replicate 51 CHR ''b'') 3 2 =
     Inr [replicate 51 CHR ''a'' @ '' '' @ replicate 51 CHR ''b'', replicate 51 CHR ''b'']"
    by code_simp
  from create_chunks_shape [of 2 3 "replicate 51 CHR ''a'' @ '' '' @ replicate 51 CHR ''b''" _ "replicate 51 CHR ''b''", OF _ _ this]
  show ?thesis by simp
qed

end
